theory Spec2Isabelle
  imports Complex_Main
begin

section \<open>Strings\<close>

text \<open>
  A Python \<open>str\<close> is modelled as a \<^typ>\<open>string\<close>, each \<^typ>\<open>char\<close> standing for the code
  point of the same number (U+0000 to U+00FF). The three character classes that
  \<open>clean_string\<close> depends on are written out for that range as CPython defines them.
\<close>

definition isspace :: "char \<Rightarrow> bool" where
  \<comment> \<open>the class \<open>\s\<close> of \<open>re\<close> on \<open>str\<close>, which is also what \<open>str.strip()\<close> removes\<close>
  "isspace c =
     (let n = (of_char c :: nat)
      in (9 \<le> n \<and> n \<le> 13) \<or> (28 \<le> n \<and> n \<le> 32) \<or> n = 133 \<or> n = 160)"

definition lower_char :: "char \<Rightarrow> char" where
  \<comment> \<open>\<open>str.lower()\<close> on one code point: A-Z and the upper-case Latin-1 letters move by 32\<close>
  "lower_char c =
     (let n = (of_char c :: nat)
      in if (65 \<le> n \<and> n \<le> 90) \<or> (192 \<le> n \<and> n \<le> 222 \<and> n \<noteq> 215)
         then char_of (n + 32) else c)"

definition lower :: "string \<Rightarrow> string" where
  "lower s = map lower_char s"

definition strip :: "string \<Rightarrow> string" where
  \<comment> \<open>\<open>str.strip()\<close> without argument\<close>
  "strip s = rev (dropWhile isspace (rev (dropWhile isspace s)))"

subsection \<open>The two regular expressions of \<open>clean_string\<close>\<close>

text \<open>
  \<open>re.IGNORECASE\<close>: a literal of the pattern matches a character whose lower-case form is
  the literal's lower-case form. \<open>match_ci p s\<close> consumes the literal text \<open>p\<close> at the start
  of \<open>s\<close> and returns what follows it.
\<close>

fun match_ci :: "string \<Rightarrow> string \<Rightarrow> string option" where
  "match_ci [] s = Some s"
| "match_ci (p # ps) [] = None"
| "match_ci (p # ps) (c # cs) =
     (if lower_char c = lower_char p then match_ci ps cs else None)"

text \<open>
  \<open>.*?\)\<close>: the lazy star stops at the first closing parenthesis; \<open>.\<close> does not match a
  line feed (no \<open>re.DOTALL\<close>), so a line feed before any closing parenthesis fails the match.
\<close>

fun lazy_close :: "string \<Rightarrow> string option" where
  "lazy_close [] = None"
| "lazy_close (c # cs) =
     (if c = CHR '')'' then Some cs
      else if c = CHR 0x0A then None
      else lazy_close cs)"

definition match_feat :: "string \<Rightarrow> string option" where
  \<comment> \<open>\<open>\(feat\..*?\)|\(featuring.*?\)\<close> tried at the start of the text; the rest after the match\<close>
  "match_feat s =
     (case Option.bind (match_ci ''(feat.'' s) lazy_close of
        Some r \<Rightarrow> Some r
      | None \<Rightarrow> Option.bind (match_ci ''(featuring'' s) lazy_close)"

lemma match_ci_length: "match_ci p s = Some r \<Longrightarrow> length r + length p = length s"
  by (induction p s rule: match_ci.induct) (auto split: if_splits)

lemma lazy_close_length: "lazy_close s = Some r \<Longrightarrow> length r < length s"
  by (induction s) (auto split: if_splits)

lemma match_feat_length: "match_feat s = Some r \<Longrightarrow> length r < length s"
  unfolding match_feat_def
  by (auto split: option.splits bind_splits dest!: match_ci_length lazy_close_length)

text \<open>
  \<open>re.sub(pattern, '', s)\<close>: scan from the left; where the pattern matches, drop the match
  and go on after it, otherwise keep the character and move one position.
\<close>

function sub_feat :: "string \<Rightarrow> string" where
  "sub_feat [] = []"
| "sub_feat (c # cs) =
     (case match_feat (c # cs) of
        Some r \<Rightarrow> sub_feat r
      | None \<Rightarrow> c # sub_feat cs)"
  by pat_completeness auto
termination
  by (relation "measure length") (auto dest: match_feat_length)

text \<open>\<open>re.sub(r'\s+', ' ', s)\<close>: every maximal run of white space becomes one space.\<close>

function sub_spaces :: "string \<Rightarrow> string" where
  "sub_spaces [] = []"
| "sub_spaces (c # cs) =
     (if isspace c then CHR '' '' # sub_spaces (dropWhile isspace cs)
      else c # sub_spaces cs)"
  by pat_completeness auto
termination
  by (relation "measure length") (auto simp: le_imp_less_Suc length_dropWhile_le)

definition clean_string :: "string \<Rightarrow> string" where
  "clean_string s = lower (strip (sub_spaces (sub_feat s)))"

subsection \<open>The steps after the first substitution are idempotent\<close>

lemma lower_char_idem: "lower_char (lower_char c) = lower_char c"
  by (auto simp: lower_char_def Let_def)

lemma isspace_lower_char: "isspace (lower_char c) = isspace c"
  by (auto simp: lower_char_def isspace_def Let_def)

lemma lower_char_space: "lower_char (CHR '' '') = CHR '' ''"
  by (simp add: lower_char_def)

lemma isspace_space: "isspace (CHR '' '')"
  by (simp add: isspace_def)

lemma lower_idem: "lower (lower s) = lower s"
  by (simp add: lower_def lower_char_idem)

lemma dropWhile_isspace_lower:
  "dropWhile isspace (map lower_char s) = map lower_char (dropWhile isspace s)"
  by (induction s) (auto simp: isspace_lower_char)

lemma sub_spaces_lower: "sub_spaces (lower s) = lower (sub_spaces s)"
  unfolding lower_def
  by (induction s rule: sub_spaces.induct)
     (auto simp: isspace_lower_char lower_char_space dropWhile_isspace_lower)

lemma strip_lower: "strip (lower s) = lower (strip s)"
  by (simp add: strip_def lower_def dropWhile_isspace_lower rev_map)

text \<open>The shape of a string after the white-space substitution.\<close>

fun single_spaced :: "string \<Rightarrow> bool" where
  "single_spaced [] = True"
| "single_spaced (c # cs) =
     ((if isspace c then c = CHR '' '' \<and> (cs = [] \<or> \<not> isspace (hd cs)) else True)
      \<and> single_spaced cs)"

lemma dropWhile_hd: "dropWhile P xs = [] \<or> \<not> P (hd (dropWhile P xs))"
  by (induction xs) auto

lemma sub_spaces_hd: "sub_spaces s = [] \<longleftrightarrow> s = []"
  by (cases s) auto

lemma sub_spaces_hd_space:
  "s \<noteq> [] \<Longrightarrow> isspace (hd (sub_spaces s)) = isspace (hd s)"
  by (cases s) (auto simp: isspace_space)

lemma single_spaced_sub_spaces: "single_spaced (sub_spaces s)"
proof (induction s rule: sub_spaces.induct)
  case 1
  show ?case by simp
next
  case (2 c cs)
  show ?case
  proof (cases "isspace c")
    case True
    let ?r = "dropWhile isspace cs"
    have "sub_spaces ?r = [] \<or> \<not> isspace (hd (sub_spaces ?r))"
    proof (cases "?r = []")
      case True
      then have "sub_spaces ?r = []" by (simp only: sub_spaces.simps)
      then show ?thesis by blast
    next
      case False
      moreover have "?r = [] \<or> \<not> isspace (hd ?r)" by (rule dropWhile_hd)
      ultimately have "\<not> isspace (hd ?r)" by blast
      moreover have "isspace (hd (sub_spaces ?r)) = isspace (hd ?r)"
        using False by (rule sub_spaces_hd_space)
      ultimately show ?thesis by blast
    qed
    with True 2 show ?thesis by (simp add: isspace_space)
  next
    case False
    with 2 show ?thesis by simp
  qed
qed

lemma sub_spaces_fixed: "single_spaced t \<Longrightarrow> sub_spaces t = t"
proof (induction t)
  case Nil
  show ?case by simp
next
  case (Cons c cs)
  then have ih: "sub_spaces cs = cs" by simp
  show ?case
  proof (cases "isspace c")
    case True
    with Cons.prems have c: "c = CHR '' ''" and h: "cs = [] \<or> \<not> isspace (hd cs)" by auto
    from h have "dropWhile isspace cs = cs" by (cases cs) auto
    with True c ih show ?thesis by simp
  next
    case False
    with ih show ?thesis by simp
  qed
qed

lemma single_spaced_dropWhile: "single_spaced t \<Longrightarrow> single_spaced (dropWhile P t)"
  by (induction t) auto

lemma single_spaced_append: "single_spaced (xs @ ys) \<Longrightarrow> single_spaced xs"
proof (induction xs)
  case Nil
  show ?case by simp
next
  case (Cons x xs)
  then show ?case by (cases xs) (auto split: if_splits)
qed

lemma rev_dropWhile_rev: "rev (dropWhile P (rev t)) @ rev (takeWhile P (rev t)) = t"
proof -
  have "rev (takeWhile P (rev t) @ dropWhile P (rev t)) = t" by simp
  then show ?thesis by (simp only: rev_append)
qed

lemma single_spaced_strip: "single_spaced t \<Longrightarrow> single_spaced (strip t)"
proof -
  assume "single_spaced t"
  then have a: "single_spaced (dropWhile isspace t)" by (rule single_spaced_dropWhile)
  let ?d = "dropWhile isspace t"
  have "rev (dropWhile isspace (rev ?d)) @ rev (takeWhile isspace (rev ?d)) = ?d"
    by (rule rev_dropWhile_rev)
  with a have "single_spaced (rev (dropWhile isspace (rev ?d)) @ rev (takeWhile isspace (rev ?d)))"
    by simp
  then show ?thesis unfolding strip_def by (rule single_spaced_append)
qed

lemma dropWhile_unchanged: "(xs \<noteq> [] \<Longrightarrow> \<not> P (hd xs)) \<Longrightarrow> dropWhile P xs = xs"
  by (cases xs) auto

lemma strip_idem: "strip (strip s) = strip s"
proof -
  let ?y = "dropWhile isspace s"
  let ?z = "rev (dropWhile isspace (rev ?y))"
  have y: "?y = [] \<or> \<not> isspace (hd ?y)" by (rule dropWhile_hd)
  have dec: "?z @ rev (takeWhile isspace (rev ?y)) = ?y" by (rule rev_dropWhile_rev)
  have front: "dropWhile isspace ?z = ?z"
  proof (rule dropWhile_unchanged)
    assume nz: "?z \<noteq> []"
    then have "hd ?z = hd ?y" by (metis dec hd_append2)
    moreover have "?y \<noteq> []" using nz dec by (metis Nil_is_append_conv)
    ultimately show "\<not> isspace (hd ?z)" using y by metis
  qed
  show ?thesis unfolding strip_def by (simp only: front rev_rev_ident dropWhile_idem)
qed

lemma post_idem:
  "lower (strip (sub_spaces (lower (strip (sub_spaces s))))) = lower (strip (sub_spaces s))"
proof -
  let ?t = "strip (sub_spaces s)"
  have "single_spaced ?t" by (rule single_spaced_strip [OF single_spaced_sub_spaces])
  then have "sub_spaces ?t = ?t" by (rule sub_spaces_fixed)
  then have "strip (sub_spaces ?t) = ?t" by (simp add: strip_idem)
  then show ?thesis by (simp add: sub_spaces_lower strip_lower lower_idem)
qed

lemma length_sub_feat: "length (sub_feat s) \<le> length s"
proof (induction s rule: sub_feat.induct)
  case 1
  show ?case by simp
next
  case (2 c cs)
  show ?case
  proof (cases "match_feat (c # cs)")
    case None
    with 2 show ?thesis by simp
  next
    case (Some r)
    with 2 have "length (sub_feat r) \<le> length r" by simp
    moreover have "length r < length (c # cs)" using Some by (rule match_feat_length)
    ultimately show ?thesis using Some by simp
  qed
qed

lemma sub_feat_same_length: "length (sub_feat s) = length s \<Longrightarrow> sub_feat s = s"
proof (induction s rule: sub_feat.induct)
  case 1
  show ?case by simp
next
  case (2 c cs)
  show ?case
  proof (cases "match_feat (c # cs)")
    case None
    with 2 show ?thesis by simp
  next
    case (Some r)
    have "length (sub_feat r) \<le> length r" by (rule length_sub_feat)
    moreover have "length r < length (c # cs)" using Some by (rule match_feat_length)
    ultimately have "length (sub_feat (c # cs)) < length (c # cs)" using Some by simp
    with 2 show ?thesis by simp
  qed
qed

lemma length_sub_spaces: "length (sub_spaces s) \<le> length s"
proof (induction s rule: sub_spaces.induct)
  case 1
  show ?case by simp
next
  case (2 c cs)
  have "length (dropWhile isspace cs) \<le> length cs" by (rule length_dropWhile_le)
  with 2 show ?case by (cases "isspace c") auto
qed

lemma length_strip: "length (strip s) \<le> length s"
proof -
  have "length (dropWhile isspace (rev (dropWhile isspace s))) \<le> length (rev (dropWhile isspace s))"
    by (rule length_dropWhile_le)
  moreover have "length (dropWhile isspace s) \<le> length s" by (rule length_dropWhile_le)
  ultimately show ?thesis by (simp add: strip_def)
qed

lemma length_post: "length (lower (strip (sub_spaces s))) \<le> length s"
  using length_strip [of "sub_spaces s"] length_sub_spaces [of s] by (simp add: lower_def)

subsection \<open>Idempotence of \<open>clean_string\<close>\<close>

text \<open>
  One more pass changes a cleaned string exactly when the first pass left a
  \<open>(feat. ...)\<close> or \<open>(featuring ...)\<close> group in it: the white-space, trimming and
  lower-casing steps never undo themselves, and the substitution shortens whatever it changes.
\<close>

lemma clean_string_twice:
  "clean_string (clean_string s) = clean_string s \<longleftrightarrow>
   sub_feat (clean_string s) = clean_string s"
proof
  assume "sub_feat (clean_string s) = clean_string s"
  then have "clean_string (clean_string s) = lower (strip (sub_spaces (clean_string s)))"
    by (simp add: clean_string_def)
  also have "\<dots> = clean_string s"
    unfolding clean_string_def by (rule post_idem)
  finally show "clean_string (clean_string s) = clean_string s" .
next
  assume eq: "clean_string (clean_string s) = clean_string s"
  let ?n = "clean_string s"
  have "length ?n = length (lower (strip (sub_spaces (sub_feat ?n))))"
    using eq by (simp add: clean_string_def)
  also have "\<dots> \<le> length (sub_feat ?n)" by (rule length_post)
  finally have "length ?n \<le> length (sub_feat ?n)" .
  with length_sub_feat [of ?n] have "length (sub_feat ?n) = length ?n" by simp
  then show "sub_feat ?n = ?n" by (rule sub_feat_same_length)
qed

text \<open>
  Claim C3, as stated: \<open>clean_string (clean_string s) = clean_string s\<close> for every string.
  It fails where removing one group builds another one from the text around it:
  \<open>(feat(feat.).)\<close> is cleaned to \<open>(feat.)\<close>, and that to the empty string.
\<close>

theorem clean_string_not_idempotent:
  "\<not> (\<forall>s. clean_string (clean_string s) = clean_string s)"
proof
  assume "\<forall>s. clean_string (clean_string s) = clean_string s"
  then have "clean_string (clean_string ''(feat(feat.).)'') = clean_string ''(feat(feat.).)''"
    by (rule spec)
  moreover have "clean_string ''(feat(feat.).)'' = ''(feat.)''" by code_simp
  moreover have "clean_string ''(feat.)'' = []" by code_simp
  ultimately show False by simp
qed

text \<open>
  Claim C3, amended: \<open>clean_string\<close> applied twice gives the result of applying it once
  exactly for the strings whose cleaned form holds no further \<open>feat.\<close>/\<open>featuring\<close>
  group; it removes those groups without regard to case, collapses white-space runs, trims
  and lower-cases, so \<open>Foo (feat. Bar)\<close> and \<open>FOO\<close> are both cleaned to \<open>foo\<close>.
\<close>

theorem clean_string_idempotent_iff:
  "(clean_string (clean_string s) = clean_string s \<longleftrightarrow>
      sub_feat (clean_string s) = clean_string s)
   \<and> clean_string ''Foo (feat. Bar)'' = ''foo''
   \<and> clean_string ''FOO'' = ''foo''"
proof -
  have "clean_string ''Foo (feat. Bar)'' = ''foo''" by code_simp
  moreover have "clean_string ''FOO'' = ''foo''" by code_simp
  ultimately show ?thesis using clean_string_twice [of s] by blast
qed

theorem clean_string_idempotent_iff_witness:
  "clean_string (clean_string ''Foo (feat. Bar)'') = clean_string ''Foo (feat. Bar)''"
proof -
  have "sub_feat (clean_string ''Foo (feat. Bar)'') = clean_string ''Foo (feat. Bar)''"
    by code_simp
  then show ?thesis using clean_string_idempotent_iff [of "''Foo (feat. Bar)''"] by blast
qed

section \<open>Relevance score\<close>

text \<open>The operator \<open>in\<close> on two strings: \<open>str_in a b\<close> is \<open>a in b\<close>.\<close>

fun startswith :: "string \<Rightarrow> string \<Rightarrow> bool" where
  "startswith s [] = True"
| "startswith [] (p # ps) = False"
| "startswith (c # cs) (p # ps) = (c = p \<and> startswith cs ps)"

fun str_in :: "string \<Rightarrow> string \<Rightarrow> bool" where
  "str_in a [] = (a = [])"
| "str_in a (c # cs) = (startswith (c # cs) a \<or> str_in a cs)"

text \<open>
  \<open>fuzz.ratio\<close> is imported from the package \<open>fuzzywuzzy\<close>; the scorer takes it as the
  parameter \<open>ratio\<close>, an integer percentage. Python's \<open>/\<close> is true division; floating-point
  numbers are modelled by the reals, each operation by the exact one.
\<close>

definition calculate_relevance_score ::
  "(string \<Rightarrow> string \<Rightarrow> int) \<Rightarrow> string \<Rightarrow> string \<Rightarrow> string \<Rightarrow> real" where
  "calculate_relevance_score ratio query title artist =
     (let query_clean = clean_string query;
          title_clean = clean_string title;
          artist_clean = clean_string artist;
          title_exact_match = (str_in query_clean title_clean \<or> str_in title_clean query_clean);
          artist_match = (str_in query_clean artist_clean \<or> str_in artist_clean query_clean);
          title_fuzzy = real_of_int (ratio query_clean title_clean) / 100;
          artist_fuzzy = real_of_int (ratio query_clean artist_clean) / 100;
          combined_fuzzy =
            real_of_int (ratio query_clean (title_clean @ '' '' @ artist_clean)) / 100;
          score = 0;
          score = (if title_exact_match then score + 0.5 else score);
          score = (if artist_match then score + 0.3 else score);
          score = score + (title_fuzzy * 0.4 + artist_fuzzy * 0.2 + combined_fuzzy * 0.3)
      in min 1.0 score)"

lemma startswith_iff: "startswith s p \<longleftrightarrow> (\<exists>v. s = p @ v)"
  by (induction s p rule: startswith.induct) auto

lemma str_in_iff: "str_in a b \<longleftrightarrow> (\<exists>u v. b = u @ a @ v)"
proof (induction b)
  case Nil
  show ?case by simp
next
  case (Cons c cs)
  show ?case
  proof
    assume "str_in a (c # cs)"
    then consider "startswith (c # cs) a" | "str_in a cs" by auto
    then show "\<exists>u v. c # cs = u @ a @ v"
    proof cases
      case 1
      then obtain v where "c # cs = a @ v" by (auto simp: startswith_iff)
      then have "c # cs = [] @ a @ v" by simp
      then show ?thesis by blast
    next
      case 2
      with Cons obtain u v where "cs = u @ a @ v" by blast
      then have "c # cs = (c # u) @ a @ v" by simp
      then show ?thesis by blast
    qed
  next
    assume "\<exists>u v. c # cs = u @ a @ v"
    then obtain u v where uv: "c # cs = u @ a @ v" by blast
    show "str_in a (c # cs)"
    proof (cases u)
      case Nil
      with uv have "startswith (c # cs) a" by (auto simp: startswith_iff)
      then show ?thesis by simp
    next
      case (Cons x xs)
      with uv have "cs = xs @ a @ v" by simp
      then have "str_in a cs" using Cons.IH by blast
      then show ?thesis by simp
    qed
  qed
qed

text \<open>
  Claim C1: the score is the clamped weighted sum over the cleaned inputs. Starting at 0, add
  0.5 if the cleaned query occurs in the cleaned title or the cleaned title in the cleaned
  query, add 0.3 likewise for the artist, add
  \<open>titleFuzzy * 0.4 + artistFuzzy * 0.2 + combinedFuzzy * 0.3\<close>, where the combined
  similarity compares the query with title, one space, artist; the sum is clamped to at most 1.
  It holds for every similarity function \<open>ratio\<close>.
\<close>

theorem calculate_relevance_score_formula:
  "calculate_relevance_score ratio query title artist =
     (let q = clean_string query; t = clean_string title; a = clean_string artist;
          titleExact = ((\<exists>u v. t = u @ q @ v) \<or> (\<exists>u v. q = u @ t @ v));
          artistMatch = ((\<exists>u v. a = u @ q @ v) \<or> (\<exists>u v. q = u @ a @ v));
          titleFuzzy = real_of_int (ratio q t) / 100;
          artistFuzzy = real_of_int (ratio q a) / 100;
          combinedFuzzy = real_of_int (ratio q (t @ '' '' @ a)) / 100
      in min 1
           (0 + (if titleExact then 0.5 else 0) + (if artistMatch then 0.3 else 0)
              + (titleFuzzy * 0.4 + artistFuzzy * 0.2 + combinedFuzzy * 0.3)))"
  unfolding calculate_relevance_score_def Let_def str_in_iff by simp

lemma score_upper: "calculate_relevance_score ratio query title artist \<le> 1"
  unfolding calculate_relevance_score_def Let_def by simp

lemma score_lower:
  assumes "\<And>x y. 0 \<le> ratio x y"
  shows "0 \<le> calculate_relevance_score ratio query title artist"
  unfolding calculate_relevance_score_def Let_def
  by (auto intro!: add_nonneg_nonneg simp: assms)

text \<open>
  Modelled from the spec: the similarity metric. The scorer calls \<open>fuzz.ratio\<close> of the
  third-party package \<open>fuzzywuzzy\<close>, which is not among the repository's files. Section 4.2
  of the specification asks for a normalized edit-distance similarity in the Levenshtein-ratio
  style, symmetric, 1.0 on identical strings, with two empty strings similar to degree 1.0 by
  convention and an empty string similar to degree 0.0 to a non-empty one. The model is the
  Levenshtein ratio \<open>2 * lcs / (len a + len b)\<close> as a percentage rounded to the nearest
  integer, where \<open>lcs\<close> is the length of a longest common subsequence.
\<close>

fun lcs :: "string \<Rightarrow> string \<Rightarrow> nat" where
  "lcs [] ys = 0"
| "lcs (x # xs) [] = 0"
| "lcs (x # xs) (y # ys) =
     (if x = y then Suc (lcs xs ys) else max (lcs (x # xs) ys) (lcs xs (y # ys)))"

definition fuzz_ratio :: "string \<Rightarrow> string \<Rightarrow> int" where
  "fuzz_ratio s1 s2 =
     (if s1 = [] \<and> s2 = [] then 100
      else round (100 * (2 * real (lcs s1 s2)) / real (length s1 + length s2)))"

lemma lcs_le: "lcs xs ys \<le> length xs \<and> lcs xs ys \<le> length ys"
  by (induction xs ys rule: lcs.induct) auto

lemma lcs_Nil2: "lcs xs [] = 0"
  by (cases xs) auto

lemma fuzz_ratio_nonneg: "0 \<le> fuzz_ratio s1 s2"
proof -
  have "(0::real) \<le> 100 * (2 * real (lcs s1 s2)) / real (length s1 + length s2)" by simp
  then have "round (0::real) \<le> round (100 * (2 * real (lcs s1 s2)) / real (length s1 + length s2))"
    by (rule round_mono)
  then show ?thesis by (simp add: fuzz_ratio_def)
qed

lemma fuzz_ratio_le: "fuzz_ratio s1 s2 \<le> 100"
proof (cases "s1 = [] \<and> s2 = []")
  case True
  then show ?thesis by (simp add: fuzz_ratio_def)
next
  case False
  let ?n = "length s1 + length s2"
  have "0 < ?n" using False by (cases s1) auto
  then have pos: "0 < real ?n" by (simp only: of_nat_0_less_iff)
  have "2 * lcs s1 s2 \<le> ?n" using lcs_le [of s1 s2] by linarith
  then have "2 * real (lcs s1 s2) \<le> real ?n" by (metis of_nat_le_iff of_nat_mult of_nat_numeral)
  then have "100 * (2 * real (lcs s1 s2)) / real ?n \<le> 100"
    using pos by (simp add: pos_divide_le_eq)
  then have "round (100 * (2 * real (lcs s1 s2)) / real ?n) \<le> round (100::real)"
    by (rule round_mono)
  with False show ?thesis by (simp add: fuzz_ratio_def)
qed

lemma fuzz_ratio_empty_left: "s \<noteq> [] \<Longrightarrow> fuzz_ratio [] s = 0"
  by (simp add: fuzz_ratio_def)

lemma fuzz_ratio_empty_right: "s \<noteq> [] \<Longrightarrow> fuzz_ratio s [] = 0"
  by (simp add: fuzz_ratio_def lcs_Nil2)

text \<open>
  Claim C4: with the metric above the scorer is defined on all strings, the empty ones
  included (no step of \<open>calculate_relevance_score\<close> can raise on a string), two empty strings
  are similar to degree 1.0, an empty and a non-empty string to degree 0.0, and the score lies
  between 0.0 and 1.0.
\<close>

theorem score_defined_on_empty_strings:
  "real_of_int (fuzz_ratio [] []) / 100 = 1
   \<and> (s \<noteq> [] \<longrightarrow>
        real_of_int (fuzz_ratio [] s) / 100 = 0 \<and> real_of_int (fuzz_ratio s []) / 100 = 0)
   \<and> 0 \<le> calculate_relevance_score fuzz_ratio query title artist
   \<and> calculate_relevance_score fuzz_ratio query title artist \<le> 1"
proof -
  have "fuzz_ratio [] [] = 100" by (simp add: fuzz_ratio_def)
  moreover have "0 \<le> calculate_relevance_score fuzz_ratio query title artist"
    by (rule score_lower) (rule fuzz_ratio_nonneg)
  moreover have "calculate_relevance_score fuzz_ratio query title artist \<le> 1"
    by (rule score_upper)
  ultimately show ?thesis
    by (simp add: fuzz_ratio_empty_left fuzz_ratio_empty_right)
qed

theorem score_defined_on_empty_strings_witness:
  "real_of_int (fuzz_ratio [] ''a'') / 100 = 0
   \<and> real_of_int (fuzz_ratio ''a'' []) / 100 = 0
   \<and> 0 \<le> calculate_relevance_score fuzz_ratio [] [] []
   \<and> calculate_relevance_score fuzz_ratio [] [] [] \<le> 1"
  using score_defined_on_empty_strings [of "''a''" "[]" "[]" "[]"] by simp

end
